theory Spec2Isabelle
  imports Main "HOL-Library.Word"
begin

section \<open>JavaScript strings and values\<close>

text \<open>
  A JavaScript string is a sequence of 16-bit code units. Source literals are
  ASCII and are written through \<open>js\<close>.
\<close>

type_synonym code_unit = "16 word"
type_synonym jsstring = "code_unit list"

definition js :: "string \<Rightarrow> jsstring" where
  "js s = map (\<lambda>c. word_of_nat (of_char c)) s"

text \<open>The separators of \<^verbatim>\<open>split("\n")\<close> and \<^verbatim>\<open>split("=")\<close>.\<close>

definition nl :: code_unit where
  "nl = 0x0A"

definition eq :: code_unit where
  "eq = 0x3D"

text \<open>
  \<^verbatim>\<open>String.prototype.trim\<close> removes the code units of WhiteSpace and
  LineTerminator from both ends.
\<close>

definition isWhiteSpace :: "code_unit \<Rightarrow> bool" where
  "isWhiteSpace c \<longleftrightarrow>
     c = 0x09 \<or> c = 0x0A \<or> c = 0x0B \<or> c = 0x0C \<or> c = 0x0D \<or> c = 0x20 \<or>
     c = 0xA0 \<or> c = 0x1680 \<or> (0x2000 \<le> c \<and> c \<le> 0x200A) \<or>
     c = 0x2028 \<or> c = 0x2029 \<or> c = 0x202F \<or> c = 0x205F \<or> c = 0x3000 \<or>
     c = 0xFEFF"

definition trimStart :: "jsstring \<Rightarrow> jsstring" where
  "trimStart s = dropWhile isWhiteSpace s"

definition trimEnd :: "jsstring \<Rightarrow> jsstring" where
  "trimEnd s = rev (dropWhile isWhiteSpace (rev s))"

definition trim :: "jsstring \<Rightarrow> jsstring" where
  "trim s = trimEnd (trimStart s)"

text \<open>
  \<^verbatim>\<open>s.split(sep)\<close> for a separator of one code unit: the pieces between the
  occurrences of the separator, the empty string giving one empty piece.
\<close>

fun split :: "code_unit \<Rightarrow> jsstring \<Rightarrow> jsstring list" where
  "split c [] = [[]]"
| "split c (x # xs) =
     (if x = c then [] # split c xs
      else (case split c xs of
              [] \<Rightarrow> [[x]]
            | p # ps \<Rightarrow> (x # p) # ps))"

text \<open>\<^verbatim>\<open>parts.join(sep)\<close>.\<close>

fun join :: "jsstring \<Rightarrow> jsstring list \<Rightarrow> jsstring" where
  "join sep [] = []"
| "join sep [p] = p"
| "join sep (p # q # ps) = p @ sep @ join sep (q # ps)"

text \<open>The decimal rendering of a non-negative integer (\<^verbatim>\<open>String(n)\<close>).\<close>

definition digit :: "nat \<Rightarrow> code_unit" where
  "digit d = word_of_nat (48 + d)"

fun showNat :: "nat \<Rightarrow> jsstring" where
  "showNat n = (if n < 10 then [digit n] else showNat (n div 10) @ [digit (n mod 10)])"

declare showNat.simps [simp del]

text \<open>
  The values the program handles. A number is an IEEE 754 double, carried as its
  64 bits; the program never inspects it. An object is the list of its own
  properties in insertion order, with keys that are unique. (The runtime lists keys
  that are array indices first, in numeric order; the properties below are about the
  value bound to each key, not about the order of the keys.)
\<close>

type_synonym number = "64 word"

datatype jsval =
    JUndefined
  | JNull
  | JBool bool
  | JNum number
  | JStr jsstring
  | JArr "jsval list"
  | JObj "(jsstring \<times> jsval) list"

datatype js_type = TUndefined | TObject | TBoolean | TNumber | TString

fun typeof :: "jsval \<Rightarrow> js_type" where
  "typeof JUndefined = TUndefined"
| "typeof JNull = TObject"
| "typeof (JBool b) = TBoolean"
| "typeof (JNum n) = TNumber"
| "typeof (JStr s) = TString"
| "typeof (JArr xs) = TObject"
| "typeof (JObj kvs) = TObject"

text \<open>Defining a property: an existing key keeps its place, a new key goes last.\<close>

fun objSet :: "jsstring \<Rightarrow> jsval \<Rightarrow> (jsstring \<times> jsval) list \<Rightarrow> (jsstring \<times> jsval) list" where
  "objSet k v [] = [(k, v)]"
| "objSet k v (p # ps) = (if fst p = k then (k, v) # ps else p # objSet k v ps)"

text \<open>
  The own enumerable properties of a value: the indices of a string or an array,
  the fields of an object, none for the other values.
\<close>

fun ownProps :: "jsval \<Rightarrow> (jsstring \<times> jsval) list" where
  "ownProps (JStr s) = map (\<lambda>i. (showNat i, JStr [s ! i])) [0..<length s]"
| "ownProps (JArr xs) = map (\<lambda>i. (showNat i, xs ! i)) [0..<length xs]"
| "ownProps (JObj kvs) = kvs"
| "ownProps v = []"

text \<open>Object spread \<^verbatim>\<open>{...target, ...v}\<close>, one source at a time.\<close>

definition objSpread :: "(jsstring \<times> jsval) list \<Rightarrow> jsval \<Rightarrow> (jsstring \<times> jsval) list" where
  "objSpread target v = fold (\<lambda>(k, x) obj. objSet k x obj) (ownProps v) target"

text \<open>
  One entry of \<^verbatim>\<open>Object.fromEntries\<close>: elements 0 and 1 of the pair, a missing
  element being \<^verbatim>\<open>undefined\<close>.
\<close>

fun entry :: "jsstring list \<Rightarrow> jsstring \<times> jsval" where
  "entry [] = (js ''undefined'', JUndefined)"
| "entry [k] = (k, JUndefined)"
| "entry (k # v # rest) = (k, JStr v)"

definition fromEntries :: "jsstring list list \<Rightarrow> (jsstring \<times> jsval) list" where
  "fromEntries pairs = fold (\<lambda>p obj. objSet (fst (entry p)) (snd (entry p)) obj) pairs []"

section \<open>Errors, log and the outside world\<close>

text \<open>
  A thrown value is an \<^verbatim>\<open>Error\<close> with its message, or some other value with its
  string rendering.
\<close>

datatype thrown = Error jsstring | NonError jsstring

datatype event = Info jsstring | Warning jsstring | Debug jsstring | SetFailed jsstring

text \<open>
  The state of a run: what was logged, and the git commands started so far, each
  with its arguments.
\<close>

record run_state =
  log :: "event list"
  cmds :: "jsstring list list"

definition initial :: run_state where
  "initial = \<lparr>log = [], cmds = []\<rparr>"

definition emit :: "event \<Rightarrow> run_state \<Rightarrow> run_state" where
  "emit e st = st\<lparr>log := log st @ [e]\<rparr>"

text \<open>
  The collaborators the program calls and does not implement: the action's
  inputs, the file system, the JSON codec of the runtime, and the git process.
  The answer of git to a command (a thrown value, or exit code and standard output)
  may depend on every command of the run before it.
\<close>

record env =
  getInput :: "jsstring \<Rightarrow> jsstring"
  readFile :: "jsstring \<Rightarrow> thrown + jsstring"
  JSON_parse :: "jsstring \<Rightarrow> thrown + jsval"
  JSON_stringify :: "jsval \<Rightarrow> jsstring"
  exec :: "jsstring list list \<Rightarrow> jsstring list \<Rightarrow> thrown + (int \<times> jsstring)"

section \<open>The program\<close>

definition CUSTOM_NOTES_REF :: jsstring where
  "CUSTOM_NOTES_REF = js ''notes-kv''"

definition invalidPair :: "jsstring list \<Rightarrow> bool" where
  "invalidPair pair \<longleftrightarrow>
     (case pair of [k, v] \<Rightarrow> k = [] \<or> v = [] | _ \<Rightarrow> True)"

definition inputPairs :: "jsstring \<Rightarrow> jsstring list list" where
  "inputPairs input = map (\<lambda>line. map trim (split eq (trim line))) (split nl (trim input))"

definition parseInput :: "jsstring \<Rightarrow> run_state \<Rightarrow> (thrown + jsval) \<times> run_state" where
  "parseInput input st =
     (let pairs = inputPairs input;
          invalidLines = filter invalidPair pairs
      in if length invalidLines > 0
         then (Inl (Error (js ''Invalid input format on lines: '' @
                     join (js '', '') (map (\<lambda>i. showNat (i + 1)) [0..<length invalidLines]))),
               emit (Debug (js ''Input: '' @ input)) st)
         else (Inr (JObj (fromEntries pairs)), st))"

text \<open>
  \<^verbatim>\<open>await\<close> inside \<^verbatim>\<open>try\<close>: a thrown value ends the sequence, a result is
  passed on together with the state.
\<close>

definition andThen ::
  "(thrown + 'a) \<times> run_state \<Rightarrow> ('a \<Rightarrow> run_state \<Rightarrow> (thrown + 'b) \<times> run_state) \<Rightarrow>
   (thrown + 'b) \<times> run_state" where
  "andThen r f = (case r of (Inl e, s) \<Rightarrow> (Inl e, s) | (Inr a, s) \<Rightarrow> f a s)"

definition readInput ::
  "env \<Rightarrow> jsstring \<Rightarrow> jsstring \<Rightarrow> run_state \<Rightarrow> (thrown + jsval) \<times> run_state" where
  "readInput env valuesInput valuesFile st =
     (if valuesInput \<noteq> [] \<and> trim valuesInput \<noteq> [] \<and> valuesFile \<noteq> [] \<and> trim valuesFile \<noteq> []
      then (Inl (Error (js ''Both values and values_file cannot be provided.'')), st)
      else if valuesInput \<noteq> [] \<and> trim valuesInput \<noteq> []
      then parseInput valuesInput st
      else if valuesFile \<noteq> [] \<and> trim valuesFile \<noteq> []
      then (case readFile env valuesFile of
              Inl e \<Rightarrow> (Inl e, st)
            | Inr content \<Rightarrow>
                (case JSON_parse env content of
                   Inl e \<Rightarrow> (Inl e, st)
                 | Inr json_object \<Rightarrow>
                     if typeof json_object \<noteq> TObject
                     then (Inl (Error (js ''Input must be a JSON object.'')), st)
                     else (Inr json_object, st)))
      else (Inl (Error (js ''Either values or values_file must be provided.'')), st))"

definition execGit :: "env \<Rightarrow> jsstring list \<Rightarrow> run_state \<Rightarrow> (thrown + jsstring) \<times> run_state" where
  "execGit env args st =
     (let st' = st\<lparr>cmds := cmds st @ [args]\<rparr>
      in case exec env (cmds st) args of
           Inl e \<Rightarrow> (Inl e, st')
         | Inr (code, output) \<Rightarrow>
             if code \<noteq> 0
             then (Inl (Error (js ''Failed to run git '' @ join (js '' '') args)), st')
             else (Inr (trim output), st'))"

definition getCurrentCommit :: "env \<Rightarrow> run_state \<Rightarrow> (thrown + jsstring) \<times> run_state" where
  "getCurrentCommit env st = execGit env [js ''rev-parse'', js ''HEAD''] st"

definition fetchArgs :: "jsstring \<Rightarrow> jsstring list" where
  "fetchArgs notesRef =
     [js ''fetch'', js ''origin'', js ''refs/notes/'' @ notesRef @ js '':refs/notes/'' @ notesRef]"

definition fetchNotesRef :: "env \<Rightarrow> jsstring \<Rightarrow> run_state \<Rightarrow> (thrown + unit) \<times> run_state" where
  "fetchNotesRef env notesRef st =
     (case execGit env (fetchArgs notesRef) st of
        (Inr out, st') \<Rightarrow> (Inr (), st')
      | (Inl error, st') \<Rightarrow>
          (let message = (case error of
                            Error m \<Rightarrow> m
                          | NonError x \<Rightarrow> js ''Unknown error occurred while fetching notes'')
           in (Inr (), emit (Info (js ''Note: '' @ message @
                 js ''. This may be normal when adding notes for the first time.'')) st')))"

definition showArgs :: "jsstring \<Rightarrow> jsstring list" where
  "showArgs notesRef = [js ''notes'', js ''--ref'', notesRef, js ''show'']"

definition addArgs :: "jsstring \<Rightarrow> jsstring \<Rightarrow> jsstring \<Rightarrow> jsstring list" where
  "addArgs notesRef body commitSha =
     [js ''notes'', js ''--ref'', notesRef, js ''add'', js ''-f'', js ''-m'', body, commitSha]"

definition addOrUpdateNotes ::
  "env \<Rightarrow> jsval \<Rightarrow> jsstring \<Rightarrow> jsstring \<Rightarrow> run_state \<Rightarrow> (thrown + unit) \<times> run_state" where
  "addOrUpdateNotes env notes commitSha notesRef st =
     (let (existingNote, st1) =
            (case execGit env (showArgs notesRef) st of
               (Inr out, s) \<Rightarrow> (out, emit (Info (js ''Existing note found. Preparing to update.'')) s)
             | (Inl error, s) \<Rightarrow>
                 ([], emit (Info (js ''No existing note found. A new note will be created.'')) s));
          (notes', st2) =
            (if existingNote \<noteq> []
             then (case JSON_parse env existingNote of
                     Inr existingNotes \<Rightarrow>
                       (let merged = JObj (objSpread (objSpread [] existingNotes) notes)
                        in (merged,
                            emit (Info (js ''Merged notes: '' @ JSON_stringify env merged)) st1))
                   | Inl error \<Rightarrow>
                       (notes,
                        emit (Warning
                          (js ''Failed to parse existing note as JSON. Overwriting with new note.''))
                          st1))
             else (notes, st1))
      in andThen (execGit env (addArgs notesRef (JSON_stringify env notes') commitSha) st2)
           (\<lambda>out s. (Inr (), emit (Info (js ''Note added or updated successfully.'')) s)))"

definition pushArgs :: "jsstring list" where
  "pushArgs = [js ''push'', js ''origin'', js ''refs/notes/*'', js ''-f'']"

definition pushNotes :: "env \<Rightarrow> run_state \<Rightarrow> (thrown + unit) \<times> run_state" where
  "pushNotes env st = andThen (execGit env pushArgs st) (\<lambda>out s. (Inr (), s))"

text \<open>\<^verbatim>\<open>Object.keys\<close> throws a TypeError on \<^verbatim>\<open>null\<close> and \<^verbatim>\<open>undefined\<close>.\<close>

fun objectKeys :: "jsval \<Rightarrow> thrown + jsstring list" where
  "objectKeys JUndefined = Inl (Error (js ''Cannot convert undefined or null to object''))"
| "objectKeys JNull = Inl (Error (js ''Cannot convert undefined or null to object''))"
| "objectKeys v = Inr (map fst (ownProps v))"

text \<open>The body of the \<^verbatim>\<open>try\<close> block of \<^verbatim>\<open>run\<close>, then \<^verbatim>\<open>run\<close> with its handler.\<close>

definition runBody :: "env \<Rightarrow> run_state \<Rightarrow> (thrown + unit) \<times> run_state" where
  "runBody env st =
     (let values = getInput env (js ''values'');
          valuesFile = getInput env (js ''values_file'');
          notesRefInput = getInput env (js ''custom_ref'')
      in andThen (readInput env values valuesFile st) (\<lambda>notes s0.
           let s1 = emit (Info (js ''Notes to store: '' @ JSON_stringify env notes)) s0
           in andThen (objectKeys notes, s1) (\<lambda>keys s1.
                if length keys = 0
                then (Inr (), emit (Info (js ''No values provided. Skipping note storage.'')) s1)
                else
                  let notesRef = (if notesRefInput \<noteq> [] \<and> trim notesRefInput \<noteq> []
                                  then notesRefInput else CUSTOM_NOTES_REF)
                  in andThen (getCurrentCommit env s1) (\<lambda>commitSha s2.
                     andThen (fetchNotesRef env notesRef s2) (\<lambda>u s3.
                     andThen (addOrUpdateNotes env notes commitSha notesRef s3) (\<lambda>u s4.
                     andThen (pushNotes env s4) (\<lambda>u s5.
                       (Inr (), emit (Info (js ''Notes stored successfully.'')) s5))))))))"

definition run :: "env \<Rightarrow> run_state" where
  "run env =
     (case runBody env initial of
        (Inr u, s) \<Rightarrow> s
      | (Inl (Error message), s) \<Rightarrow> emit (SetFailed message) s
      | (Inl (NonError x), s) \<Rightarrow> emit (SetFailed (js ''An unknown error occurred: '' @ x)) s)"

text \<open>A run has failed when \<^verbatim>\<open>setFailed\<close> was called.\<close>

fun isSetFailed :: "event \<Rightarrow> bool" where
  "isSetFailed (SetFailed m) = True"
| "isSetFailed e = False"

definition failed :: "run_state \<Rightarrow> bool" where
  "failed st = list_ex isSetFailed (log st)"

text \<open>The warnings of a run, in the order they were logged.\<close>

fun isWarning :: "event \<Rightarrow> bool" where
  "isWarning (Warning m) = True"
| "isWarning e = False"

definition warnings :: "run_state \<Rightarrow> event list" where
  "warnings st = filter isWarning (log st)"

section \<open>Notions used to state the properties\<close>

text \<open>A string is blank when it holds nothing but white space.\<close>

definition blank :: "jsstring \<Rightarrow> bool" where
  "blank s \<longleftrightarrow> list_all isWhiteSpace s"

text \<open>
  The lines of an inline input, as the parser takes them: the input without its
  leading and trailing white space, cut at every newline.
\<close>

definition inputLines :: "jsstring \<Rightarrow> jsstring list" where
  "inputLines input = split nl (trim input)"

text \<open>
  A line of the form \<^verbatim>\<open>key=value\<close>: exactly one \<^verbatim>\<open>=\<close>, with something other than
  white space before it and after it.
\<close>

definition keyOf :: "jsstring \<Rightarrow> jsstring" where
  "keyOf l = takeWhile (\<lambda>c. c \<noteq> eq) l"

definition valueOf :: "jsstring \<Rightarrow> jsstring" where
  "valueOf l = drop 1 (dropWhile (\<lambda>c. c \<noteq> eq) l)"

definition keyValueLine :: "jsstring \<Rightarrow> bool" where
  "keyValueLine l \<longleftrightarrow> count_list l eq = 1 \<and> \<not> blank (keyOf l) \<and> \<not> blank (valueOf l)"

text \<open>
  A well-formed inline text \<^verbatim>\<open>k1=v1\nk2=v2\n...\<close>: every key and every value is
  free of \<^verbatim>\<open>=\<close> and of newlines and is not blank; white space around a key or a
  value is part of it.
\<close>

definition wellFormedPart :: "jsstring \<Rightarrow> bool" where
  "wellFormedPart s \<longleftrightarrow> nl \<notin> set s \<and> eq \<notin> set s \<and> \<not> blank s"

definition wellFormedPairs :: "(jsstring \<times> jsstring) list \<Rightarrow> bool" where
  "wellFormedPairs kvs \<longleftrightarrow>
     kvs \<noteq> [] \<and> list_all (\<lambda>(k, v). wellFormedPart k \<and> wellFormedPart v) kvs"

definition inlineText :: "(jsstring \<times> jsstring) list \<Rightarrow> jsstring" where
  "inlineText kvs = join [nl] (map (\<lambda>(k, v). k @ [eq] @ v) kvs)"

text \<open>The trimmed keys with their trimmed values, one entry for each line.\<close>

definition trimmedEntries :: "(jsstring \<times> jsstring) list \<Rightarrow> (jsstring \<times> jsval) list" where
  "trimmedEntries kvs = map (\<lambda>(k, v). (trim k, JStr (trim v))) kvs"

text \<open>What input resolution yields in a run, and the notes reference a run uses.\<close>

definition resolvedInput :: "env \<Rightarrow> thrown + jsval" where
  "resolvedInput env =
     fst (readInput env (getInput env (js ''values'')) (getInput env (js ''values_file'')) initial)"


definition revParseArgs :: "jsstring list" where
  "revParseArgs = [js ''rev-parse'', js ''HEAD'']"

section \<open>Example environments\<close>

text \<open>
  A stand-in for the serializer of the runtime, enough for objects whose values
  are strings without characters that need escaping.
\<close>

definition quote :: "jsstring \<Rightarrow> jsstring" where
  "quote s = [0x22] @ s @ [0x22]"

definition renderField :: "jsstring \<times> jsval \<Rightarrow> jsstring" where
  "renderField p =
     quote (fst p) @ js '':'' @ (case snd p of JStr s \<Rightarrow> quote s | _ \<Rightarrow> js ''null'')"

definition exampleStringify :: "jsval \<Rightarrow> jsstring" where
  "exampleStringify v =
     (case v of
        JObj kvs \<Rightarrow> js ''{'' @ join (js '','') (map renderField kvs) @ js ''}''
      | JArr xs \<Rightarrow>
          js ''['' @ join (js '','')
            (map (\<lambda>x. case x of JStr s \<Rightarrow> quote s | _ \<Rightarrow> js ''null'') xs) @ js '']''
      | JStr s \<Rightarrow> quote s
      | _ \<Rightarrow> js ''null'')"

text \<open>
  An environment with the given \<^verbatim>\<open>values\<close> and \<^verbatim>\<open>values_file\<close> inputs and no
  \<^verbatim>\<open>custom_ref\<close>. The values file holds \<open>content\<close>; \<open>documents\<close> lists the texts
  the JSON parser accepts, each with its value; \<open>note\<close> is the note already stored
  for the commit, empty when there is none. Fetching fails, as on a first run; every
  other git command succeeds.
\<close>

definition exampleEnv ::
  "jsstring \<Rightarrow> jsstring \<Rightarrow> jsstring \<Rightarrow> (jsstring \<times> jsval) list \<Rightarrow> jsstring \<Rightarrow> env" where
  "exampleEnv values valuesFile content documents note =
     \<lparr>getInput = (\<lambda>name. if name = js ''values'' then values
                          else if name = js ''values_file'' then valuesFile
                          else []),
      readFile = (\<lambda>path. if path = valuesFile then Inr content
                          else Inl (Error (js ''ENOENT: no such file or directory''))),
      JSON_parse = (\<lambda>text. case map_of documents text of
                              Some v \<Rightarrow> Inr v
                            | None \<Rightarrow> Inl (Error (js ''Unexpected token''))),
      JSON_stringify = exampleStringify,
      exec = (\<lambda>history args.
                if args = revParseArgs then Inr (0, js ''abc123'' @ [nl])
                else if args = fetchArgs CUSTOM_NOTES_REF
                then Inl (Error (js ''The process git failed with exit code 1''))
                else if args = showArgs CUSTOM_NOTES_REF
                then (if note = [] then Inl (Error (js ''The process git failed with exit code 1''))
                      else Inr (0, note @ [nl]))
                else Inr (0, []))\<rparr>"

text \<open>
  The stored note \<^verbatim>\<open>{"author":"alice"}\<close>, and a run with the inline input
  \<^verbatim>\<open>author=bob\nstage=deploy\<close> on a commit that carries this note.
\<close>

definition aliceNote :: jsstring where
  "aliceNote = js ''{'' @ quote (js ''author'') @ js '':'' @ quote (js ''alice'') @ js ''}''"

definition mergeEnv :: env where
  "mergeEnv =
     exampleEnv (js ''author=bob'' @ [nl] @ js ''stage=deploy'') [] []
       [(aliceNote, JObj [(js ''author'', JStr (js ''alice''))])] aliceNote"



text \<open>Runs that read a values file holding \<^verbatim>\<open>{}\<close> and \<^verbatim>\<open>["a"]\<close>.\<close>

definition emptyObjectEnv :: env where
  "emptyObjectEnv = exampleEnv [] (js ''meta.json'') (js ''{}'') [(js ''{}'', JObj [])] []"

definition arrayText :: jsstring where
  "arrayText = js ''['' @ quote (js ''a'') @ js '']''"

definition arrayEnv :: env where
  "arrayEnv =
     exampleEnv [] (js ''meta.json'') arrayText [(arrayText, JArr [JStr (js ''a'')])] []"

section \<open>White space, trimming and splitting\<close>

lemma eq_not_ws: "\<not> isWhiteSpace eq"
  by (simp add: isWhiteSpace_def eq_def)

lemma nl_ws: "isWhiteSpace nl"
  by (simp add: isWhiteSpace_def nl_def)

lemma nl_neq_eq: "nl \<noteq> eq"
  by (simp add: nl_def eq_def)

lemma blank_Nil [simp]: "blank []" by (simp add: blank_def)
lemma blank_Cons [simp]: "blank (c # s) \<longleftrightarrow> isWhiteSpace c \<and> blank s" by (simp add: blank_def)
lemma blank_append [simp]: "blank (s @ t) \<longleftrightarrow> blank s \<and> blank t" by (simp add: blank_def)
lemma blank_rev [simp]: "blank (rev s) \<longleftrightarrow> blank s" by (simp add: blank_def)
lemma blank_set: "blank s \<longleftrightarrow> (\<forall>c\<in>set s. isWhiteSpace c)" by (simp add: blank_def list_all_iff)

lemma dropWhile_blank: "blank s \<Longrightarrow> dropWhile isWhiteSpace s = []"
  by (induction s) auto

lemma dropWhile_blank_append: "blank a \<Longrightarrow> dropWhile isWhiteSpace (a @ s) = dropWhile isWhiteSpace s"
  by (induction a) auto

lemma dropWhile_nonblank_append:
  "\<not> blank s \<Longrightarrow> dropWhile isWhiteSpace (s @ t) = dropWhile isWhiteSpace s @ t"
  by (induction s) auto

lemma trimStart_blank: "blank s \<Longrightarrow> trimStart s = []"
  by (simp add: trimStart_def dropWhile_blank)

lemma trimStart_blank_append: "blank a \<Longrightarrow> trimStart (a @ s) = trimStart s"
  by (simp add: trimStart_def dropWhile_blank_append)

lemma trimStart_append_nonblank: "\<not> blank s \<Longrightarrow> trimStart (s @ t) = trimStart s @ t"
  by (simp add: trimStart_def dropWhile_nonblank_append)

lemma trimEnd_blank: "blank s \<Longrightarrow> trimEnd s = []"
  by (simp add: trimEnd_def dropWhile_blank)

lemma trimEnd_append_blank: "blank b \<Longrightarrow> trimEnd (s @ b) = trimEnd s"
  by (simp add: trimEnd_def dropWhile_blank_append)

lemma trimEnd_nonblank_append: "\<not> blank t \<Longrightarrow> trimEnd (s @ t) = s @ trimEnd t"
  by (simp add: trimEnd_def dropWhile_nonblank_append)

lemma blank_takeWhile: "blank (takeWhile isWhiteSpace s)"
  by (induction s) auto

lemma trimStart_decomp: "\<exists>a. blank a \<and> s = a @ trimStart s"
proof -
  have "s = takeWhile isWhiteSpace s @ trimStart s" by (simp add: trimStart_def)
  then show ?thesis using blank_takeWhile by blast
qed

lemma trimEnd_decomp: "\<exists>b. blank b \<and> s = trimEnd s @ b"
proof -
  have "rev s = takeWhile isWhiteSpace (rev s) @ dropWhile isWhiteSpace (rev s)" by simp
  then have "rev (rev s) = rev (takeWhile isWhiteSpace (rev s) @ dropWhile isWhiteSpace (rev s))"
    by simp
  then have "s = trimEnd s @ rev (takeWhile isWhiteSpace (rev s))"
    by (simp only: rev_append rev_rev_ident trimEnd_def)
  moreover have "blank (rev (takeWhile isWhiteSpace (rev s)))"
    by (simp add: blank_takeWhile)
  ultimately show ?thesis by blast
qed

lemma blank_trimStart [simp]: "blank (trimStart s) \<longleftrightarrow> blank s"
proof -
  obtain a where "blank a" "s = a @ trimStart s" using trimStart_decomp by blast
  then have "blank s \<longleftrightarrow> blank a \<and> blank (trimStart s)" using blank_append by metis
  with \<open>blank a\<close> show ?thesis by simp
qed

lemma blank_trimEnd [simp]: "blank (trimEnd s) \<longleftrightarrow> blank s"
proof -
  obtain b where "blank b" "s = trimEnd s @ b" using trimEnd_decomp by blast
  then have "blank s \<longleftrightarrow> blank (trimEnd s) \<and> blank b" using blank_append by metis
  with \<open>blank b\<close> show ?thesis by simp
qed

lemma trim_blank_iff: "trim s = [] \<longleftrightarrow> blank s"
proof
  assume "trim s = []"
  then have "blank (trim s)" by simp
  then show "blank s" by (simp add: trim_def)
next
  assume "blank s" then show "trim s = []" by (simp add: trim_def trimStart_blank trimEnd_blank)
qed

lemma trim_surround: "blank a \<Longrightarrow> blank b \<Longrightarrow> trim (a @ s @ b) = trim s"
proof (cases "blank s")
  case True
  assume "blank a" "blank b"
  with True have "blank (a @ s @ b)" by simp
  with True show ?thesis by (simp only: trim_blank_iff [THEN iffD2])
next
  case False
  assume a: "blank a" and b: "blank b"
  have "trimStart (a @ s @ b) = trimStart s @ b"
    using a False by (simp add: trimStart_blank_append trimStart_append_nonblank)
  then show ?thesis using b by (simp add: trim_def trimEnd_append_blank)
qed

lemma trim_trimStart [simp]: "trim (trimStart s) = trim s"
proof -
  obtain a where a: "blank a" "s = a @ trimStart s" using trimStart_decomp by blast
  have "trim (a @ trimStart s @ []) = trim (trimStart s)" using a(1) by (rule trim_surround) simp
  with a(2) show ?thesis by simp
qed

lemma trim_trimEnd [simp]: "trim (trimEnd s) = trim s"
proof -
  obtain b where b: "blank b" "s = trimEnd s @ b" using trimEnd_decomp by blast
  have "trim ([] @ trimEnd s @ b) = trim (trimEnd s)" using blank_Nil b(1) by (rule trim_surround)
  with b(2) show ?thesis by simp
qed

lemma trim_trim [simp]: "trim (trim s) = trim s"
  by (simp add: trim_def [of s])

lemma trim_decomp: "\<exists>a b. blank a \<and> blank b \<and> s = a @ trim s @ b"
proof -
  obtain a where a: "blank a" "s = a @ trimStart s" using trimStart_decomp by blast
  obtain b where b: "blank b" "trimStart s = trimEnd (trimStart s) @ b" using trimEnd_decomp by blast
  from a b have "s = a @ trim s @ b" by (simp add: trim_def)
  with a b show ?thesis by blast
qed


lemma split_not_Nil [simp]: "split c s \<noteq> []"
  by (induction s) (auto split: list.splits)

lemma split_no_sep: "c \<notin> set s \<Longrightarrow> split c s = [s]"
  by (induction s) auto

lemma split_append_sep: "c \<notin> set a \<Longrightarrow> split c (a @ c # b) = a # split c b"
  by (induction a) auto

lemma length_split: "length (split c s) = Suc (count_list s c)"
  by (induction s) (auto split: list.splits)

lemma join_Cons: "join sep (p # ps) = p @ concat (map (\<lambda>x. sep @ x) ps)"
  by (induction ps arbitrary: p) auto

lemma join_snoc: "join sep (ps @ [p]) = concat (map (\<lambda>x. x @ sep) ps) @ p"
  by (induction sep ps rule: join.induct) auto

lemma split_join:
  "ls \<noteq> [] \<Longrightarrow> \<forall>l\<in>set ls. c \<notin> set l \<Longrightarrow> split c (join [c] ls) = ls"
  by (induction "[c]" ls rule: join.induct) (auto simp: split_no_sep split_append_sep)

lemma count_blank_eq: "blank s \<Longrightarrow> count_list s eq = 0"
  using eq_not_ws by (induction s) auto

lemma count_trim_eq: "count_list (trim l) eq = count_list l eq"
proof -
  obtain a b where "blank a" "blank b" "l = a @ trim l @ b" using trim_decomp by blast
  then have "count_list l eq = count_list a eq + count_list (trim l) eq + count_list b eq"
    by (metis count_list_append add.assoc)
  with \<open>blank a\<close> \<open>blank b\<close> show ?thesis by (simp add: count_blank_eq)
qed

lemma set_trimStart: "set (trimStart s) \<subseteq> set s"
  by (auto simp: trimStart_def dest: set_dropWhileD)

lemma set_trimEnd: "set (trimEnd s) \<subseteq> set s"
  by (auto simp: trimEnd_def dest: set_dropWhileD)

lemma set_trim: "set (trim s) \<subseteq> set s"
  unfolding trim_def using set_trimStart set_trimEnd by blast

lemma trim_key_eq_value: "trim (k @ eq # v) = trimStart k @ eq # trimEnd v"
proof -
  have s: "trimStart (k @ eq # v) = trimStart k @ eq # v"
  proof (cases "blank k")
    case True
    then show ?thesis using eq_not_ws
      by (simp add: trimStart_blank_append trimStart_blank) (simp add: trimStart_def)
  next
    case False
    then show ?thesis by (simp add: trimStart_append_nonblank)
  qed
  have e: "trimEnd ((trimStart k @ [eq]) @ v) = (trimStart k @ [eq]) @ trimEnd v"
  proof (cases "blank v")
    case True
    have "\<not> blank [eq]" using eq_not_ws by simp
    then have "trimEnd (trimStart k @ [eq]) = trimStart k @ trimEnd [eq]"
      by (rule trimEnd_nonblank_append)
    also have "trimEnd [eq] = [eq]" using eq_not_ws by (simp add: trimEnd_def)
    finally have "trimEnd (trimStart k @ [eq]) = trimStart k @ [eq]" .
    moreover have "trimEnd ((trimStart k @ [eq]) @ v) = trimEnd (trimStart k @ [eq])"
      using True by (rule trimEnd_append_blank)
    ultimately show ?thesis using True by (simp only: trimEnd_blank append_Nil2)
  next
    case False
    then show ?thesis by (rule trimEnd_nonblank_append)
  qed
  show ?thesis using s e by (simp add: trim_def)
qed

lemma pair_of_line:
  assumes "eq \<notin> set k" "eq \<notin> set v"
  shows "map trim (split eq (trim (k @ eq # v))) = [trim k, trim v]"
proof -
  have "eq \<notin> set (trimStart k)" "eq \<notin> set (trimEnd v)"
    using assms set_trimStart set_trimEnd by blast+
  then have "split eq (trimStart k @ eq # trimEnd v) = [trimStart k, trimEnd v]"
    by (simp add: split_append_sep split_no_sep)
  then show ?thesis by (simp add: trim_key_eq_value)
qed

lemma count_one_decomp:
  "count_list l c = 1 \<Longrightarrow>
     l = takeWhile (\<lambda>x. x \<noteq> c) l @ c # drop 1 (dropWhile (\<lambda>x. x \<noteq> c) l) \<and>
     c \<notin> set (takeWhile (\<lambda>x. x \<noteq> c) l) \<and>
     c \<notin> set (drop 1 (dropWhile (\<lambda>x. x \<noteq> c) l))"
proof (induction l)
  case Nil
  then show ?case by simp
next
  case (Cons x xs)
  show ?case
  proof (cases "x = c")
    case True
    with Cons.prems have "count_list xs c = 0" by simp
    then have "c \<notin> set xs" by (simp add: count_list_0_iff)
    with True show ?thesis by simp
  next
    case False
    with Cons show ?thesis by simp
  qed
qed

lemma invalidPair_length: "length p \<noteq> 2 \<Longrightarrow> invalidPair p"
  by (cases p rule: entry.cases) (auto simp: invalidPair_def split: list.splits)

lemma invalidPair_two: "invalidPair [k, v] \<longleftrightarrow> k = [] \<or> v = []"
  by (simp add: invalidPair_def)

lemma invalid_line_iff: "invalidPair (map trim (split eq (trim l))) \<longleftrightarrow> \<not> keyValueLine l"
proof (cases "count_list l eq = 1")
  case False
  then have "length (map trim (split eq (trim l))) \<noteq> 2"
    by (simp add: length_split count_trim_eq)
  then have "invalidPair (map trim (split eq (trim l)))" by (rule invalidPair_length)
  with False show ?thesis by (simp add: keyValueLine_def)
next
  case True
  from count_one_decomp [OF True]
  have l: "l = keyOf l @ eq # valueOf l" and k: "eq \<notin> set (keyOf l)" and v: "eq \<notin> set (valueOf l)"
    by (simp_all add: keyOf_def valueOf_def)
  have "map trim (split eq (trim (keyOf l @ eq # valueOf l))) = [trim (keyOf l), trim (valueOf l)]"
    using k v by (rule pair_of_line)
  with l have "map trim (split eq (trim l)) = [trim (keyOf l), trim (valueOf l)]" by simp
  then show ?thesis using True by (simp add: invalidPair_two keyValueLine_def trim_blank_iff)
qed

section \<open>Lines of an inline input\<close>

lemma inputPairs_lines:
  "inputPairs input = map (\<lambda>l. map trim (split eq (trim l))) (inputLines input)"
  by (simp add: inputPairs_def inputLines_def)

lemma invalid_count:
  "length (filter invalidPair (inputPairs input)) =
   length (filter (\<lambda>l. \<not> keyValueLine l) (inputLines input))"
  by (simp add: inputPairs_lines filter_map o_def invalid_line_iff)

lemma filter_empty_length: "length (filter P xs) = 0 \<longleftrightarrow> (\<forall>x\<in>set xs. \<not> P x)"
  by (simp add: filter_empty_conv)

lemma map_index_shift: "map (\<lambda>i. f (i + 1)) [0..<m] = map f [1..<Suc m]"
proof -
  have "map f [1..<Suc m] = map f (map Suc [0..<m])" by (simp only: map_Suc_upt One_nat_def)
  then show ?thesis by (simp add: o_def)
qed

lemma parseInput_bad:
  assumes "\<exists>l\<in>set (inputLines input). \<not> keyValueLine l"
  shows "parseInput input st =
     (Inl (Error (js ''Invalid input format on lines: '' @ join (js '', '')
        (map showNat [1..<Suc (length (filter (\<lambda>l. \<not> keyValueLine l) (inputLines input)))]))),
      emit (Debug (js ''Input: '' @ input)) st)"
proof -
  have "length (filter (\<lambda>l. \<not> keyValueLine l) (inputLines input)) > 0"
    using assms by (simp add: filter_empty_conv)
  then have "length (filter invalidPair (inputPairs input)) > 0"
    by (simp only: invalid_count)
  then show ?thesis
    unfolding parseInput_def Let_def
    by (simp only: if_True map_index_shift invalid_count)
qed

lemma parseInput_good:
  assumes "\<forall>l\<in>set (inputLines input). keyValueLine l"
  shows "parseInput input st = (Inr (JObj (fromEntries (inputPairs input))), st)"
proof -
  have "filter (\<lambda>l. \<not> keyValueLine l) (inputLines input) = []"
    using assms by (simp add: filter_empty_conv)
  then have "length (filter invalidPair (inputPairs input)) = 0"
    by (simp add: invalid_count)
  then show ?thesis
    by (simp add: parseInput_def Let_def)
qed

lemma good_pairs:
  assumes "\<forall>l\<in>set ls. keyValueLine l"
  shows "map (\<lambda>l. map trim (split eq (trim l))) ls = map (\<lambda>l. [trim (keyOf l), trim (valueOf l)]) ls"
proof (rule map_cong [OF refl])
  fix l assume "l \<in> set ls"
  with assms have kv: "keyValueLine l" by blast
  then have c: "count_list l eq = 1" by (simp add: keyValueLine_def)
  from count_one_decomp [OF c]
  have l: "l = keyOf l @ eq # valueOf l" and k: "eq \<notin> set (keyOf l)" and v: "eq \<notin> set (valueOf l)"
    by (simp_all add: keyOf_def valueOf_def)
  have "map trim (split eq (trim (keyOf l @ eq # valueOf l))) = [trim (keyOf l), trim (valueOf l)]"
    using k v by (rule pair_of_line)
  with l show "map trim (split eq (trim l)) = [trim (keyOf l), trim (valueOf l)]" by simp
qed

text \<open>Trimming a text of several lines.\<close>

lemma trimStart_join: "\<not> blank p \<Longrightarrow> trimStart (join sep (p # ps)) = join sep (trimStart p # ps)"
  by (simp add: join_Cons trimStart_append_nonblank)

lemma trimEnd_join: "\<not> blank p \<Longrightarrow> trimEnd (join sep (ps @ [p])) = join sep (ps @ [trimEnd p])"
  by (simp add: join_snoc trimEnd_nonblank_append)

lemma lines_of_trimmed_text:
  assumes ne: "ls \<noteq> []" and ok: "\<forall>l\<in>set ls. nl \<notin> set l \<and> \<not> blank l"
  shows "map trim (split nl (trim (join [nl] ls))) = map trim ls"
proof -
  obtain p ps where ls: "ls = p # ps" using ne by (cases ls) auto
  have p: "\<not> blank p" using ok ls by simp
  have s: "trimStart (join [nl] ls) = join [nl] (trimStart p # ps)"
    using p ls by (simp add: trimStart_join)
  obtain qs q where q: "trimStart p # ps = qs @ [q]"
    by (metis append_butlast_last_id list.distinct(1))
  have q_ok: "nl \<notin> set q \<and> \<not> blank q \<and> (\<forall>l\<in>set qs. nl \<notin> set l)"
  proof (cases ps rule: rev_cases)
    case Nil
    with q have "q = trimStart p" "qs = []" by simp_all
    then show ?thesis using ok ls set_trimStart [of p] by auto
  next
    case (snoc ps' r)
    with q have "q = r" "qs = trimStart p # ps'" by simp_all
    then show ?thesis using ok ls snoc set_trimStart [of p] by auto
  qed
  have e: "trimEnd (join [nl] (qs @ [q])) = join [nl] (qs @ [trimEnd q])"
    using q_ok by (simp add: trimEnd_join)
  have "\<forall>l\<in>set (qs @ [trimEnd q]). nl \<notin> set l"
    using q_ok set_trimEnd [of q] by auto
  then have "split nl (join [nl] (qs @ [trimEnd q])) = qs @ [trimEnd q]"
    by (intro split_join) simp_all
  with s q e have "split nl (trim (join [nl] ls)) = qs @ [trimEnd q]"
    by (simp add: trim_def)
  then have "map trim (split nl (trim (join [nl] ls))) = map trim (qs @ [q])" by simp
  also have "\<dots> = map trim (trimStart p # ps)" by (simp only: q)
  also have "\<dots> = map trim ls" by (simp add: ls)
  finally show ?thesis .
qed

lemma nonblank_join: "p \<in> set ps \<Longrightarrow> \<not> blank p \<Longrightarrow> \<not> blank (join sep ps)"
  by (induction sep ps rule: join.induct) auto

lemma wellFormed_lines:
  assumes "wellFormedPairs kvs" and that: "blank pre" "blank post"
  shows "map (\<lambda>l. map trim (split eq (trim l))) (split nl (trim (pre @ inlineText kvs @ post))) =
           map (\<lambda>(k, v). [trim k, trim v]) kvs"
proof -
  let ?ls = "map (\<lambda>(k, v). k @ [eq] @ v) kvs"
  have ne: "?ls \<noteq> []" using assms by (simp add: wellFormedPairs_def)
  have wf: "\<forall>(k, v)\<in>set kvs. wellFormedPart k \<and> wellFormedPart v"
    using assms by (simp add: wellFormedPairs_def list_all_iff)
  have ok: "\<forall>l\<in>set ?ls. nl \<notin> set l \<and> \<not> blank l"
    using wf nl_neq_eq by (auto simp: wellFormedPart_def)
  have "trim (pre @ inlineText kvs @ post) = trim (inlineText kvs)"
    using that by (rule trim_surround)
  then have "map trim (split nl (trim (pre @ inlineText kvs @ post))) = map trim ?ls"
    using lines_of_trimmed_text [OF ne ok] by (simp add: inlineText_def)
  then have "map (\<lambda>l. map trim (split eq (trim l))) (split nl (trim (pre @ inlineText kvs @ post)))
      = map (\<lambda>l. map trim (split eq (trim l))) ?ls"
  proof -
    assume a: "map trim (split nl (trim (pre @ inlineText kvs @ post))) = map trim ?ls"
    have f: "(\<lambda>l. map trim (split eq (trim l))) = (\<lambda>t. map trim (split eq (trim t))) \<circ> trim"
      by (simp add: fun_eq_iff)
    have "map ((\<lambda>t. map trim (split eq (trim t))) \<circ> trim) (split nl (trim (pre @ inlineText kvs @ post)))
        = map ((\<lambda>t. map trim (split eq (trim t))) \<circ> trim) ?ls"
      using a by (simp only: map_map [symmetric])
    then show ?thesis by (simp only: f [symmetric])
  qed
  also have "\<dots> = map (\<lambda>(k, v). [trim k, trim v]) kvs"
    using wf by (auto simp: wellFormedPart_def pair_of_line)
  finally show ?thesis .
qed

section \<open>Objects\<close>

lemma map_of_objSet: "map_of (objSet k v obj) = (map_of obj)(k \<mapsto> v)"
  by (induction obj) (auto simp: fun_eq_iff)

lemma keys_objSet: "fst ` set (objSet k v obj) = insert k (fst ` set obj)"
  by (induction obj) auto

lemma distinct_objSet: "distinct (map fst obj) \<Longrightarrow> distinct (map fst (objSet k v obj))"
  by (induction obj) (auto simp: keys_objSet)

lemma map_of_fold_objSet:
  "map_of (fold (\<lambda>(k, x) obj. objSet k x obj) xs acc) = map_of acc ++ map_of (rev xs)"
proof (induction xs arbitrary: acc)
  case Nil
  then show ?case by simp
next
  case (Cons p ps)
  obtain k x where p: "p = (k, x)" by (cases p)
  have "map_of (fold (\<lambda>(k, x) obj. objSet k x obj) (p # ps) acc)
      = map_of (objSet k x acc) ++ map_of (rev ps)"
    using Cons.IH [of "objSet k x acc"] p by simp
  also have "\<dots> = map_of acc ++ ([k \<mapsto> x] ++ map_of (rev ps))"
    by (simp add: map_of_objSet fun_eq_iff map_add_def split: option.splits)
  also have "[k \<mapsto> x] ++ map_of (rev ps) = map_of (rev (p # ps))"
    by (simp add: p fun_eq_iff map_add_def split: option.splits)
  finally show ?case .
qed

lemma distinct_fold_objSet:
  "distinct (map fst acc) \<Longrightarrow> distinct (map fst (fold (\<lambda>(k, x) obj. objSet k x obj) xs acc))"
  by (induction xs arbitrary: acc) (auto simp: distinct_objSet)

lemma fromEntries_fold:
  "fromEntries pairs = fold (\<lambda>(k, x) obj. objSet k x obj) (map entry pairs) []"
  by (simp add: fromEntries_def fold_map o_def case_prod_beta)

lemma map_of_fromEntries: "map_of (fromEntries pairs) = map_of (rev (map entry pairs))"
  by (simp add: fromEntries_fold map_of_fold_objSet)

lemma distinct_fromEntries: "distinct (map fst (fromEntries pairs))"
  by (simp add: fromEntries_fold distinct_fold_objSet)

lemma entry_trimmed:
  "map entry (map (\<lambda>(k, v). [trim k, trim v]) kvs) = trimmedEntries kvs"
  by (simp add: trimmedEntries_def case_prod_beta)

lemma parse_wellFormed:
  assumes "wellFormedPairs kvs" "blank pre" "blank post"
  shows "parseInput (pre @ inlineText kvs @ post) st =
           (Inr (JObj (fromEntries (map (\<lambda>(k, v). [trim k, trim v]) kvs))), st)"
proof -
  have p: "inputPairs (pre @ inlineText kvs @ post) = map (\<lambda>(k, v). [trim k, trim v]) kvs"
    unfolding inputPairs_def using assms by (rule wellFormed_lines)
  have wf: "\<forall>(k, v)\<in>set kvs. wellFormedPart k \<and> wellFormedPart v"
    using assms(1) by (simp add: wellFormedPairs_def list_all_iff)
  have "filter invalidPair (map (\<lambda>(k, v). [trim k, trim v]) kvs) = []"
    using wf by (auto simp: filter_empty_conv invalidPair_two trim_blank_iff wellFormedPart_def)
  then show ?thesis
    by (simp add: parseInput_def Let_def p)
qed

lemma map_of_rev_last:
  assumes "\<forall>(k', x')\<in>set ys. k' \<noteq> k"
  shows "map_of (rev (xs @ (k, x) # ys)) k = Some x"
proof -
  have "map_of (rev ys) k = None"
    using assms by (auto simp: map_of_eq_None_iff)
  then show ?thesis by (simp add: map_add_def)
qed

section \<open>State, errors and input resolution\<close>

lemma failed_initial [simp]: "\<not> failed initial"
  by (simp add: failed_def initial_def)

lemma cmds_initial [simp]: "cmds initial = []"
  by (simp add: initial_def)

lemma log_initial [simp]: "log initial = []"
  by (simp add: initial_def)

lemma failed_emit [simp]: "failed (emit e st) \<longleftrightarrow> isSetFailed e \<or> failed st"
  by (auto simp: failed_def emit_def)

lemma cmds_emit [simp]: "cmds (emit e st) = cmds st"
  by (simp add: emit_def)

lemma log_emit [simp]: "log (emit e st) = log st @ [e]"
  by (simp add: emit_def)

lemma failed_cmds_update [simp]: "failed (st\<lparr>cmds := c\<rparr>) = failed st"
  by (simp add: failed_def)

lemma warnings_initial [simp]: "warnings initial = []"
  by (simp add: warnings_def initial_def)

lemma warnings_emit [simp]:
  "warnings (emit e st) = (if isWarning e then warnings st @ [e] else warnings st)"
  by (simp add: warnings_def emit_def)

lemma warnings_cmds_update [simp]: "warnings (st\<lparr>cmds := c\<rparr>) = warnings st"
  by (simp add: warnings_def)

lemma andThen_Inl [simp]: "andThen (Inl e, s) f = (Inl e, s)"
  by (simp add: andThen_def)

lemma andThen_Inr [simp]: "andThen (Inr a, s) f = f a s"
  by (simp add: andThen_def)

lemma parseInput_ok_state: "fst (parseInput input st) = Inr v \<Longrightarrow> snd (parseInput input st) = st"
  by (simp add: parseInput_def Let_def split: if_splits)

lemma parseInput_cmds: "cmds (snd (parseInput input st)) = cmds st"
  by (simp add: parseInput_def Let_def)

lemma parseInput_failed: "failed (snd (parseInput input st)) = failed st"
  by (simp add: parseInput_def Let_def)

lemma readInput_ok_state:
  "fst (readInput env a b st) = Inr v \<Longrightarrow> snd (readInput env a b st) = st"
  by (auto simp: readInput_def parseInput_ok_state split: if_splits sum.splits)

lemma readInput_cmds: "cmds (snd (readInput env a b st)) = cmds st"
  by (auto simp: readInput_def parseInput_cmds split: if_splits sum.splits)

lemma readInput_failed: "failed (snd (readInput env a b st)) = failed st"
  by (auto simp: readInput_def parseInput_failed split: if_splits sum.splits)

lemma run_cmds: "cmds (run env) = cmds (snd (runBody env initial))"
  by (simp add: run_def split: prod.splits sum.splits thrown.splits)

lemma run_failed: "failed (run env) \<longleftrightarrow> isl (fst (runBody env initial)) \<or> failed (snd (runBody env initial))"
  by (auto simp: run_def split: prod.splits sum.splits thrown.splits)

lemma run_log: "set (log (snd (runBody env initial))) \<subseteq> set (log (run env))"
  by (auto simp: run_def split: prod.splits sum.splits thrown.splits)

lemma resolvedInput_readInput:
  "readInput env (getInput env (js ''values'')) (getInput env (js ''values_file'')) initial =
     (resolvedInput env,
      snd (readInput env (getInput env (js ''values'')) (getInput env (js ''values_file'')) initial))"
  by (simp add: resolvedInput_def)

lemma runBody_input_error:
  assumes "resolvedInput env = Inl e"
  shows "fst (runBody env initial) = Inl e \<and> cmds (snd (runBody env initial)) = []"
proof -
  obtain s where "readInput env (getInput env (js ''values'')) (getInput env (js ''values_file'')) initial
      = (Inl e, s)" and "cmds s = []"
    using assms resolvedInput_readInput [of env] readInput_cmds [of env _ _ initial] by simp
  then show ?thesis by (simp add: runBody_def Let_def)
qed

lemma run_input_error:
  assumes "resolvedInput env = Inl e"
  shows "failed (run env) \<and> cmds (run env) = []"
  using runBody_input_error [OF assms] by (simp add: run_failed run_cmds)








section \<open>The git commands of a run\<close>









section \<open>Properties of the inline parser\<close>

text \<open>
  C6. A well-formed inline input \<^verbatim>\<open>k1=v1\nk2=v2\n...\<close>, with any white space before
  it and after it, parses to an object with unique keys whose lookup is the lookup in
  the trimmed keys and trimmed values of the lines (for a key given twice, its last
  line): the keys are exactly the trimmed keys, each bound to its trimmed value,
  whatever white space surrounds the text, a key or a value.
\<close>

theorem wellFormed_input_parses:
  assumes "wellFormedPairs kvs" and "blank pre" and "blank post"
  shows "\<exists>obj. fst (parseInput (pre @ inlineText kvs @ post) st) = Inr (JObj obj) \<and>
           distinct (map fst obj) \<and>
           map_of obj = map_of (rev (trimmedEntries kvs))"
proof -
  let ?obj = "fromEntries (map (\<lambda>(k, v). [trim k, trim v]) kvs)"
  have "fst (parseInput (pre @ inlineText kvs @ post) st) = Inr (JObj ?obj)"
    using assms by (simp add: parse_wellFormed)
  moreover have "distinct (map fst ?obj)" by (rule distinct_fromEntries)
  moreover have "map_of ?obj = map_of (rev (trimmedEntries kvs))"
    by (simp only: map_of_fromEntries entry_trimmed)
  ultimately show ?thesis by blast
qed

theorem wellFormed_input_parses_witness:
  "wellFormedPairs [(js '' build_number '', js '' 42''), (js ''commit_sha'', js ''abc123  '')] \<and>
   blank [nl] \<and> blank (js ''  '' @ [nl]) \<and>
   (\<exists>obj. fst (parseInput ([nl] @
              inlineText [(js '' build_number '', js '' 42''), (js ''commit_sha'', js ''abc123  '')] @
              (js ''  '' @ [nl])) initial) = Inr (JObj obj) \<and>
          distinct (map fst obj) \<and>
          map_of obj (js ''build_number'') = Some (JStr (js ''42'')) \<and>
          map_of obj (js ''commit_sha'') = Some (JStr (js ''abc123'')) \<and>
          dom (map_of obj) = {js ''build_number'', js ''commit_sha''})"
proof -
  let ?kvs = "[(js '' build_number '', js '' 42''), (js ''commit_sha'', js ''abc123  '')]"
  have wf: "wellFormedPairs ?kvs" by code_simp
  have b1: "blank [nl]" by code_simp
  have b2: "blank (js ''  '' @ [nl])" by code_simp
  have t: "trimmedEntries ?kvs =
      [(js ''build_number'', JStr (js ''42'')), (js ''commit_sha'', JStr (js ''abc123''))]"
    by code_simp
  have d: "js ''build_number'' \<noteq> js ''commit_sha''" by code_simp
  obtain obj where
    "fst (parseInput ([nl] @ inlineText ?kvs @ (js ''  '' @ [nl])) initial) = Inr (JObj obj)"
    "distinct (map fst obj)" "map_of obj = map_of (rev (trimmedEntries ?kvs))"
    using wellFormed_input_parses [OF wf b1 b2, of initial] by blast
  moreover from this(3) t d have "map_of obj (js ''build_number'') = Some (JStr (js ''42''))"
    "map_of obj (js ''commit_sha'') = Some (JStr (js ''abc123''))"
    "dom (map_of obj) = {js ''build_number'', js ''commit_sha''}"
    by (auto simp: dom_def split: if_splits)
  ultimately show ?thesis using wf b1 b2 by blast
qed

text \<open>
  C9. When a key is given on several well-formed lines, parsing succeeds and the
  key is bound to the value of the last line that gives it: for a line \<open>k=v\<close> that no
  later line repeats the key of, the parsed object binds the trimmed \<open>k\<close> to the
  trimmed \<open>v\<close>, whatever lines come before.
\<close>

theorem duplicate_key_last_wins:
  assumes "wellFormedPairs (xs @ (k, v) # ys)" and "blank pre" and "blank post"
    and "\<forall>(k', v')\<in>set ys. trim k' \<noteq> trim k"
  shows "\<exists>obj. fst (parseInput (pre @ inlineText (xs @ (k, v) # ys) @ post) st) = Inr (JObj obj) \<and>
           map_of obj (trim k) = Some (JStr (trim v))"
proof -
  let ?obj = "fromEntries (map (\<lambda>(k, v). [trim k, trim v]) (xs @ (k, v) # ys))"
  have "fst (parseInput (pre @ inlineText (xs @ (k, v) # ys) @ post) st) = Inr (JObj ?obj)"
    using assms(1-3) by (simp add: parse_wellFormed)
  moreover have "map_of ?obj (trim k) = Some (JStr (trim v))"
  proof -
    have "\<forall>(k', x')\<in>set (trimmedEntries ys). k' \<noteq> trim k"
      using assms(4) by (auto simp: trimmedEntries_def)
    then have "map_of (rev (trimmedEntries xs @ (trim k, JStr (trim v)) # trimmedEntries ys)) (trim k)
        = Some (JStr (trim v))"
      by (rule map_of_rev_last)
    moreover have "trimmedEntries (xs @ (k, v) # ys) =
        trimmedEntries xs @ (trim k, JStr (trim v)) # trimmedEntries ys"
      by (simp add: trimmedEntries_def)
    ultimately show ?thesis by (simp only: map_of_fromEntries entry_trimmed)
  qed
  ultimately show ?thesis by blast
qed

theorem duplicate_key_last_wins_witness:
  "wellFormedPairs ([(js ''a'', js ''1''), (js ''b'', js ''2'')] @ (js '' a '', js ''3'') # []) \<and>
   (\<exists>obj. fst (parseInput ([] @ inlineText ([(js ''a'', js ''1''), (js ''b'', js ''2'')] @
                   (js '' a '', js ''3'') # []) @ []) initial) = Inr (JObj obj) \<and>
          map_of obj (js ''a'') = Some (JStr (js ''3'')))"
proof -
  have wf: "wellFormedPairs ([(js ''a'', js ''1''), (js ''b'', js ''2'')] @ (js '' a '', js ''3'') # [])"
    by code_simp
  have b: "blank []" by code_simp
  have l: "\<forall>(k', v')\<in>set []. trim k' \<noteq> trim (js '' a '')" by simp
  have t: "trim (js '' a '') = js ''a''" "trim (js ''3'') = js ''3''" by code_simp+
  show ?thesis
    using duplicate_key_last_wins [OF wf b b l, of initial] wf by (simp only: t) 
qed

text \<open>
  C4 (as the parser has it). A line is cut at every \<^verbatim>\<open>=\<close>, not at the first one only.
  Parsing fails exactly when some line of the input is not of the form
  \<^verbatim>\<open>key=value\<close> with exactly one \<^verbatim>\<open>=\<close>, a key that is not blank and a value that is not
  blank; otherwise every line gives its trimmed key and trimmed value. A line with
  a second \<^verbatim>\<open>=\<close>, such as \<^verbatim>\<open>k=a=b\<close>, is rejected.
\<close>

theorem line_valid_iff_one_separator:
  "(isl (fst (parseInput input st)) \<longleftrightarrow> (\<exists>l\<in>set (inputLines input). \<not> keyValueLine l)) \<and>
   ((\<forall>l\<in>set (inputLines input). keyValueLine l) \<longrightarrow>
      fst (parseInput input st) =
        Inr (JObj (fromEntries (map (\<lambda>l. [trim (keyOf l), trim (valueOf l)]) (inputLines input)))))"
proof (cases "\<forall>l\<in>set (inputLines input). keyValueLine l")
  case True
  then have "inputPairs input = map (\<lambda>l. [trim (keyOf l), trim (valueOf l)]) (inputLines input)"
    by (simp only: inputPairs_lines good_pairs)
  with True show ?thesis by (simp add: parseInput_good)
next
  case False
  then have b: "\<exists>l\<in>set (inputLines input). \<not> keyValueLine l" by blast
  then have "isl (fst (parseInput input st))" by (simp only: parseInput_bad fst_conv sum.disc)
  with b False show ?thesis by blast
qed

theorem parseInput_rejects_second_separator:
  "fst (parseInput (js ''k=a=b'') initial) = Inl (Error (js ''Invalid input format on lines: 1''))"
  by code_simp

theorem line_valid_iff_one_separator_witness:
  "inputLines (js ''k = a b'') = [js ''k = a b''] \<and> keyValueLine (js ''k = a b'') \<and>
   fst (parseInput (js ''k = a b'') initial) = Inr (JObj [(js ''k'', JStr (js ''a b''))]) \<and>
   (\<exists>l\<in>set (inputLines (js ''k=a=b'')). \<not> keyValueLine l) \<and>
   isl (fst (parseInput (js ''k=a=b'') initial))"
proof -
  have l: "inputLines (js ''k = a b'') = [js ''k = a b'']" by code_simp
  have k: "keyValueLine (js ''k = a b'')" by code_simp
  have h: "\<forall>l\<in>set (inputLines (js ''k = a b'')). keyValueLine l" using l k by simp
  have e: "fromEntries (map (\<lambda>l. [trim (keyOf l), trim (valueOf l)]) [js ''k = a b''])
      = [(js ''k'', JStr (js ''a b''))]" by code_simp
  have l': "inputLines (js ''k=a=b'') = [js ''k=a=b'']" by code_simp
  have k': "\<not> keyValueLine (js ''k=a=b'')" by code_simp
  have h': "\<exists>l\<in>set (inputLines (js ''k=a=b'')). \<not> keyValueLine l" using l' k' by simp
  show ?thesis
    using line_valid_iff_one_separator [of "js ''k = a b''" initial]
      line_valid_iff_one_separator [of "js ''k=a=b''" initial] h h' l k e
    by simp
qed

text \<open>
  C8. With \<open>m > 0\<close> invalid lines, the error message lists the numbers
  \<open>1, 2, ..., m\<close>: positions among the invalid lines, not positions in the input.
\<close>

theorem invalid_lines_numbered_from_one:
  assumes "m = length (filter (\<lambda>l. \<not> keyValueLine l) (inputLines input))" and "0 < m"
  shows "fst (parseInput input st) =
           Inl (Error (js ''Invalid input format on lines: '' @
                  join (js '', '') (map showNat [1..<Suc m])))"
proof -
  have "\<exists>l\<in>set (inputLines input). \<not> keyValueLine l"
    using assms by (auto simp: filter_empty_conv)
  then show ?thesis using assms(1) by (simp only: parseInput_bad fst_conv)
qed

theorem invalid_lines_numbered_from_one_witness:
  "map keyValueLine (inputLines (js ''a=b'' @ [nl] @ js ''bad'' @ [nl] @ js ''c=d'' @ [nl] @ js ''=x''))
     = [True, False, True, False] \<and>
   fst (parseInput (js ''a=b'' @ [nl] @ js ''bad'' @ [nl] @ js ''c=d'' @ [nl] @ js ''=x'') initial) =
     Inl (Error (js ''Invalid input format on lines: 1, 2''))"
proof -
  let ?input = "js ''a=b'' @ [nl] @ js ''bad'' @ [nl] @ js ''c=d'' @ [nl] @ js ''=x''"
  have v: "map keyValueLine (inputLines ?input) = [True, False, True, False]" by code_simp
  have m: "(2::nat) = length (filter (\<lambda>l. \<not> keyValueLine l) (inputLines ?input))" by code_simp
  have r: "js ''Invalid input format on lines: '' @ join (js '', '') (map showNat [1..<Suc 2])
      = js ''Invalid input format on lines: 1, 2''" by code_simp
  show ?thesis
    using invalid_lines_numbered_from_one [OF m, of initial] v r by simp
qed

section \<open>Properties of the note that is written\<close>





lemma merge_example:
  "cmds (run mergeEnv) =
     [js ''rev-parse'', js ''HEAD''] #
     [js ''fetch'', js ''origin'', js ''refs/notes/notes-kv:refs/notes/notes-kv''] #
     [js ''notes'', js ''--ref'', js ''notes-kv'', js ''show''] #
     [js ''notes'', js ''--ref'', js ''notes-kv'', js ''add'', js ''-f'', js ''-m'',
      js ''{'' @ quote (js ''author'') @ js '':'' @ quote (js ''bob'') @ js '','' @
        quote (js ''stage'') @ js '':'' @ quote (js ''deploy'') @ js ''}'',
      js ''abc123''] #
     [js ''push'', js ''origin'', js ''refs/notes/*'', js ''-f''] # []"
  by code_simp


section \<open>Properties of input resolution and of the empty cases\<close>



text \<open>
  C10. When input resolution yields a map with no key, the run succeeds and starts
  no git command.
\<close>

theorem empty_map_skips_git:
  assumes "resolvedInput env = Inr (JObj [])"
  shows "\<not> failed (run env) \<and> cmds (run env) = []"
proof -
  have "readInput env (getInput env (js ''values'')) (getInput env (js ''values_file'')) initial
      = (Inr (JObj []), initial)"
    using assms resolvedInput_readInput [of env] readInput_ok_state [of env _ _ initial "JObj []"]
    by (simp add: resolvedInput_def)
  then have "runBody env initial =
      (Inr (), emit (Info (js ''No values provided. Skipping note storage.''))
                 (emit (Info (js ''Notes to store: '' @ JSON_stringify env (JObj []))) initial))"
    by (simp add: runBody_def Let_def)
  then show ?thesis by (simp add: run_failed run_cmds)
qed

theorem empty_map_skips_git_witness:
  "resolvedInput emptyObjectEnv = Inr (JObj []) \<and>
   \<not> failed (run emptyObjectEnv) \<and> cmds (run emptyObjectEnv) = []"
proof -
  have h: "resolvedInput emptyObjectEnv = Inr (JObj [])" by code_simp
  show ?thesis using empty_map_skips_git [OF h] h by blast
qed

text \<open>
  C3 (as the program has it). When the \<^verbatim>\<open>values\<close> and \<^verbatim>\<open>values_file\<close> inputs are both
  blank, the run fails with the message that one of them must be provided, and
  starts no git command.
\<close>

theorem no_input_fails_without_git:
  assumes "blank (getInput env (js ''values''))" and "blank (getInput env (js ''values_file''))"
  shows "log (run env) = [SetFailed (js ''Either values or values_file must be provided.'')] \<and>
         cmds (run env) = []"
proof -
  have "trim (getInput env (js ''values'')) = []" "trim (getInput env (js ''values_file'')) = []"
    using assms by (simp_all add: trim_blank_iff)
  then have "readInput env (getInput env (js ''values'')) (getInput env (js ''values_file'')) initial
      = (Inl (Error (js ''Either values or values_file must be provided.'')), initial)"
    by (simp add: readInput_def)
  then have "runBody env initial =
      (Inl (Error (js ''Either values or values_file must be provided.'')), initial)"
    by (simp add: runBody_def Let_def)
  then show ?thesis by (simp add: run_def)
qed

theorem no_input_fails_without_git_witness:
  "blank (getInput (exampleEnv (js ''  '') [nl] [] [] []) (js ''values'')) \<and>
   blank (getInput (exampleEnv (js ''  '') [nl] [] [] []) (js ''values_file'')) \<and>
   log (run (exampleEnv (js ''  '') [nl] [] [] [])) =
     [SetFailed (js ''Either values or values_file must be provided.'')] \<and>
   cmds (run (exampleEnv (js ''  '') [nl] [] [] [])) = []"
proof -
  have h1: "blank (getInput (exampleEnv (js ''  '') [nl] [] [] []) (js ''values''))" by code_simp
  have h2: "blank (getInput (exampleEnv (js ''  '') [nl] [] [] []) (js ''values_file''))" by code_simp
  show ?thesis using no_input_fails_without_git [OF h1 h2] h1 h2 by blast
qed

theorem run_without_input_fails:
  "failed (run (exampleEnv [] [] [] [] [])) \<and>
   log (run (exampleEnv [] [] [] [] [])) =
     [SetFailed (js ''Either values or values_file must be provided.'')]"
  by code_simp

text \<open>
  C5. When some line of an inline input is not of the form \<^verbatim>\<open>key=value\<close> (exactly one
  \<^verbatim>\<open>=\<close>, a key and a value that are not blank), parsing fails: no map is produced,
  not even for the valid lines. In a run that is given this input (an input that is
  not blank: a blank one counts as not given), the run fails and starts no git
  command, so nothing is stored.
\<close>

theorem invalid_line_rejects_input:
  assumes "\<exists>l\<in>set (inputLines input). \<not> keyValueLine l"
  shows "isl (fst (parseInput input st)) \<and>
         (getInput env (js ''values'') = input \<and> \<not> blank input \<longrightarrow>
            failed (run env) \<and> cmds (run env) = [])"
proof -
  have p: "\<And>s. isl (fst (parseInput input s))"
    using assms by (simp only: parseInput_bad fst_conv sum.disc)
  have "failed (run env) \<and> cmds (run env) = []"
    if v: "getInput env (js ''values'') = input" and nb: "\<not> blank input"
  proof -
    have t: "input \<noteq> []" "trim input \<noteq> []" using nb by (auto simp: trim_blank_iff)
    have "isl (resolvedInput env)"
      using p [of initial] t by (simp add: resolvedInput_def readInput_def v)
    then obtain e where "resolvedInput env = Inl e" by (cases "resolvedInput env") auto
    then show ?thesis by (rule run_input_error)
  qed
  with p show ?thesis by blast
qed

theorem invalid_line_rejects_input_witness:
  "(\<exists>l\<in>set (inputLines (js ''a=b'' @ [nl] @ js ''oops'')). \<not> keyValueLine l) \<and>
   isl (fst (parseInput (js ''a=b'' @ [nl] @ js ''oops'') initial)) \<and>
   getInput (exampleEnv (js ''a=b'' @ [nl] @ js ''oops'') [] [] [] []) (js ''values'')
     = js ''a=b'' @ [nl] @ js ''oops'' \<and>
   \<not> blank (js ''a=b'' @ [nl] @ js ''oops'') \<and>
   failed (run (exampleEnv (js ''a=b'' @ [nl] @ js ''oops'') [] [] [] [])) \<and>
   cmds (run (exampleEnv (js ''a=b'' @ [nl] @ js ''oops'') [] [] [] [])) = []"
proof -
  let ?input = "js ''a=b'' @ [nl] @ js ''oops''"
  have l: "inputLines ?input = [js ''a=b'', js ''oops'']" by code_simp
  have k: "\<not> keyValueLine (js ''oops'')" by code_simp
  have h: "\<exists>l\<in>set (inputLines ?input). \<not> keyValueLine l" using l k by simp
  have g: "getInput (exampleEnv ?input [] [] [] []) (js ''values'') = ?input" by code_simp
  have b: "\<not> blank ?input" by code_simp
  show ?thesis
    using invalid_line_rejects_input [OF h, of initial "exampleEnv ?input [] [] [] []"] h g b
    by blast
qed

text \<open>
  C2. A values file that holds the JSON array \<^verbatim>\<open>["a"]\<close> is not rejected: input
  resolution yields the array, and the run stores it as the note.
\<close>

theorem array_file_is_accepted:
  "resolvedInput arrayEnv = Inr (JArr [JStr (js ''a'')]) \<and>
   \<not> failed (run arrayEnv) \<and>
   cmds (run arrayEnv) =
     [revParseArgs, fetchArgs CUSTOM_NOTES_REF, showArgs CUSTOM_NOTES_REF,
      addArgs CUSTOM_NOTES_REF arrayText (js ''abc123''), pushArgs]"
  by code_simp

lemma readInput_file:
  assumes "blank valuesInput" and "\<not> blank valuesFile"
    and "readFile env valuesFile = Inr content" and "JSON_parse env content = Inr v"
  shows "readInput env valuesInput valuesFile st =
           (if typeof v = TObject then (Inr v, st)
            else (Inl (Error (js ''Input must be a JSON object.'')), st))"
proof -
  have "trim valuesInput = []" "valuesFile \<noteq> []" "trim valuesFile \<noteq> []"
    using assms(1,2) by (auto simp: trim_blank_iff)
  then show ?thesis using assms(3,4) by (simp add: readInput_def)
qed

lemma null_file_is_accepted:
  assumes "blank valuesInput" and "\<not> blank valuesFile"
    and "readFile env valuesFile = Inr content" and "JSON_parse env content = Inr JNull"
  shows "readInput env valuesInput valuesFile st = (Inr JNull, st)"
  using readInput_file [OF assms] by simp

end
